theory Spec2Isabelle
  imports Complex_Main
begin

section \<open>Tensors, errors and elementwise operations\<close>

text \<open>
  The models of \<^verbatim>\<open>src/lib/mnist_model.py\<close> compute on PyTorch tensors. A one-dimensional
  tensor is a list of reals, a batch (of flattened images, or of embeddings) is a list of
  rows. Entries are exact reals: rounding of the 32-bit floats is not modelled. What floating
  point does where a real has no value is kept as an error value: a division by zero (NaN or
  Inf in PyTorch, which then spreads through every later operation) is \<open>DivisionByZero\<close>,
  the logarithm of a non-positive number is \<open>LogOfNonPositive\<close>. The exceptions Python
  raises are errors as well: a failed \<^verbatim>\<open>assert\<close>, an index out of range, operands whose
  shapes do not broadcast, and the \<^verbatim>\<open>RuntimeError\<close> of a normal distribution with a negative
  standard deviation.
\<close>

datatype error =
  AssertionError | IndexError | ShapeMismatch | RuntimeError | DivisionByZero | LogOfNonPositive

type_synonym vec = "real list"
type_synonym batch = "real list list"

definition bind_err :: "error + 'a \<Rightarrow> ('a \<Rightarrow> error + 'b) \<Rightarrow> error + 'b" where
  "bind_err m f = (case m of Inl e \<Rightarrow> Inl e | Inr v \<Rightarrow> f v)"

text \<open>A Python loop that fills a tensor entry by entry: the first failing entry decides.\<close>

fun sequence_err :: "(error + 'a) list \<Rightarrow> error + 'a list" where
  "sequence_err [] = Inr []"
| "sequence_err (m # ms) =
     bind_err m (\<lambda>v. bind_err (sequence_err ms) (\<lambda>vs. Inr (v # vs)))"

text \<open>
  A binary elementwise operation on one-dimensional tensors, with PyTorch's broadcasting:
  equal sizes, or one operand of size 1 that is repeated.
\<close>

definition broadcast2 :: "(real \<Rightarrow> real \<Rightarrow> real) \<Rightarrow> vec \<Rightarrow> vec \<Rightarrow> error + vec" where
  "broadcast2 f a b =
     (if length a = length b then Inr (map2 f a b)
      else if length a = 1 then Inr (map (f (hd a)) b)
      else if length b = 1 then Inr (map (\<lambda>u. f u (hd b)) a)
      else Inl ShapeMismatch)"

definition guarded_div :: "real \<Rightarrow> real \<Rightarrow> error + real" where
  "guarded_div a b = (if b = 0 then Inl DivisionByZero else Inr (a / b))"

definition guarded_log :: "real \<Rightarrow> error + real" where
  "guarded_log p = (if p \<le> 0 then Inl LogOfNonPositive else Inr (ln p))"

section \<open>KNNModel\<close>

text \<open>\<^verbatim>\<open>nn.Identity\<close> returns its argument; \<^verbatim>\<open>KNNModel.forward\<close> applies it.\<close>

definition identity :: "'a \<Rightarrow> 'a" where
  "identity x = x"

definition KNNModel_forward :: "'a \<Rightarrow> 'a" where
  "KNNModel_forward x = (let x' = identity x in x')"

section \<open>NCAModel\<close>

text \<open>
  The layers of \<^verbatim>\<open>NCAModel.forward\<close> (three convolutions with ReLU and a linear layer) are
  PyTorch modules whose weights are not part of the source. The network with its current
  weights is the field \<open>forward\<close>, a function from a batch of flattened images to a batch of
  embeddings; \<open>log_it\<close> is the log inverse temperature.
\<close>

record NCAModel =
  forward :: "batch \<Rightarrow> batch"
  log_it :: real

subsection \<open>get_prob\<close>

text \<open>\<^verbatim>\<open>mask_same = (y_target[i] == y_target).float()\<close>\<close>

definition mask_same :: "int list \<Rightarrow> nat \<Rightarrow> error + vec" where
  "mask_same y_target i =
     (if i < length y_target
      then Inr (map (\<lambda>t. if y_target ! i = t then 1 else 0) y_target)
      else Inl IndexError)"

text \<open>\<^verbatim>\<open>mask_not_self = torch.ones(batch_size); mask_not_self[i] = 0\<close>\<close>

definition mask_not_self :: "nat \<Rightarrow> nat \<Rightarrow> vec" where
  "mask_not_self batch_size i = (replicate batch_size 1)[i := 0]"

text \<open>
  \<^verbatim>\<open>dist = ((x[i] - x_ref) ** 2).view(batch_size, -1).sum(1) * self.log_it.exp()\<close>, where
  \<open>x_ref\<close> is \<open>x_orig\<close> when it is given and \<open>x\<close> otherwise: one entry for each row of
  \<open>x_ref\<close>.
\<close>

definition sq_diff_sum :: "vec \<Rightarrow> vec \<Rightarrow> error + real" where
  "sq_diff_sum xi r =
     bind_err (broadcast2 (\<lambda>a b. a - b) xi r) (\<lambda>d. Inr (sum_list (map (\<lambda>a. a ^ 2) d)))"

definition dist_to :: "real \<Rightarrow> vec \<Rightarrow> batch \<Rightarrow> error + vec" where
  "dist_to lit xi x_ref =
     sequence_err (map (\<lambda>r. bind_err (sq_diff_sum xi r) (\<lambda>s. Inr (s * exp lit))) x_ref)"

text \<open>
  The body of the loop over \<open>i\<close>: the value stored in \<^verbatim>\<open>p_target[i]\<close>. The bound
  \<^verbatim>\<open>torch.tensor(50.).cuda()\<close> is the constant 50; devices are not modelled.
\<close>

definition get_prob_entry :: "real \<Rightarrow> batch \<Rightarrow> int list \<Rightarrow> batch option \<Rightarrow> nat \<Rightarrow> error + real" where
  "get_prob_entry lit x y_target x_orig i =
     (let batch_size = length x in
      bind_err (mask_same y_target i) (\<lambda>msame.
      let mnot = mask_not_self batch_size i in
      bind_err (dist_to lit (x ! i) (case x_orig of Some xo \<Rightarrow> xo | None \<Rightarrow> x)) (\<lambda>dist.
      let ex = map (\<lambda>d. exp (- min d 50)) dist in
      bind_err (broadcast2 (*) mnot msame) (\<lambda>m.
      bind_err (broadcast2 (*) m ex) (\<lambda>num.
      bind_err (broadcast2 (*) mnot ex) (\<lambda>den.
      guarded_div (sum_list num) (sum_list den)))))))"

definition get_prob :: "real \<Rightarrow> batch \<Rightarrow> int list \<Rightarrow> batch option \<Rightarrow> error + vec" where
  "get_prob lit x y_target x_orig =
     (if (case x_orig of Some xo \<Rightarrow> length x \<noteq> length xo | None \<Rightarrow> False)
      then Inl AssertionError
      else sequence_err (map (get_prob_entry lit x y_target x_orig) [0..<length x]))"

text \<open>
  The comparison set of \<^verbatim>\<open>get_prob\<close>, and the shape condition under which the subtraction
  \<^verbatim>\<open>x[i] - x_ref\<close> needs no broadcasting: every row of \<open>x\<close> is as long as every row of the
  comparison set (the embeddings have one dimension \<open>D\<close>).
\<close>

definition ref_of :: "batch \<Rightarrow> batch option \<Rightarrow> batch" where
  "ref_of x x_orig = (case x_orig of Some xo \<Rightarrow> xo | None \<Rightarrow> x)"

definition rows_match :: "batch \<Rightarrow> batch \<Rightarrow> bool" where
  "rows_match x x_ref = (\<forall>r \<in> set x. \<forall>r' \<in> set x_ref. length r = length r')"

text \<open>The entry \<^verbatim>\<open>exp[j]\<close> of the loop body, and the two sums it divides.\<close>

definition weight :: "real \<Rightarrow> vec \<Rightarrow> vec \<Rightarrow> real" where
  "weight lit a b =
     exp (- min (sum_list (map (\<lambda>c. c ^ 2) (map2 (\<lambda>u v. u - v) a b)) * exp lit) 50)"

definition numer :: "real \<Rightarrow> batch \<Rightarrow> int list \<Rightarrow> batch \<Rightarrow> nat \<Rightarrow> real" where
  "numer lit x y x_ref i =
     (\<Sum>j<length x. (if j = i then 0 else 1) * (if y ! i = y ! j then 1 else 0)
                      * weight lit (x ! i) (x_ref ! j))"

definition denom :: "real \<Rightarrow> batch \<Rightarrow> batch \<Rightarrow> nat \<Rightarrow> real" where
  "denom lit x x_ref i =
     (\<Sum>j<length x. (if j = i then 0 else 1) * weight lit (x ! i) (x_ref ! j))"

subsection \<open>The soft-nearest-neighbour probability as the specification writes it\<close>

text \<open>
  \<open>d[i,j]\<close> is the squared Euclidean distance between \<open>x[i]\<close> and \<open>x[j]\<close>, scaled by
  \<open>exp log_it\<close> and clamped above at 50;
  \<open>p_target[i] = sum_{j \<noteq> i, y_j = y_i} exp (- d[i,j]) / sum_{j \<noteq> i} exp (- d[i,j])\<close>.
\<close>

definition sq_euclid :: "vec \<Rightarrow> vec \<Rightarrow> real" where
  "sq_euclid a b = (\<Sum>k<length a. (a ! k - b ! k) ^ 2)"

definition d_clamped :: "real \<Rightarrow> batch \<Rightarrow> nat \<Rightarrow> nat \<Rightarrow> real" where
  "d_clamped lit x i j = min (sq_euclid (x ! i) (x ! j) * exp lit) 50"

definition p_target_spec :: "real \<Rightarrow> batch \<Rightarrow> int list \<Rightarrow> nat \<Rightarrow> real" where
  "p_target_spec lit x y i =
     (\<Sum>j \<in> {j. j < length x \<and> j \<noteq> i \<and> y ! j = y ! i}. exp (- d_clamped lit x i j)) /
     (\<Sum>j \<in> {j. j < length x \<and> j \<noteq> i}. exp (- d_clamped lit x i j))"

subsection \<open>forward_adv\<close>

text \<open>
  \<^verbatim>\<open>torch.autograd.grad(loss, x)\<close> is a library call. It is a parameter \<open>autograd\<close> of the
  model: given the loss as a function of the perturbed batch and the batch at which to
  differentiate, it returns a gradient of the shape of that batch, or an error when the
  gradient has no real value. Nothing is assumed about it. The sample drawn by
  \<^verbatim>\<open>torch.zeros_like(x).normal_(0, step_size)\<close> is the parameter \<open>noise\<close>; the draw raises a
  \<^verbatim>\<open>RuntimeError\<close> when the standard deviation \<open>step_size\<close> is negative.
\<close>

type_synonym autograd = "(batch \<Rightarrow> error + real) \<Rightarrow> batch \<Rightarrow> error + batch"

text \<open>\<^verbatim>\<open>loss = - torch.log(p_target).sum()\<close>\<close>

definition neg_log_sum :: "vec \<Rightarrow> error + real" where
  "neg_log_sum p_target =
     bind_err (sequence_err (map guarded_log p_target)) (\<lambda>ls. Inr (- sum_list ls))"

text \<open>
  The loss of one iteration as a function of the perturbed batch:
  \<^verbatim>\<open>outputs = self.forward(x)\<close>,
  \<^verbatim>\<open>p_target = self.get_prob(outputs, y_target, x_orig=outputs_orig.detach())\<close>.
\<close>

definition adv_loss :: "NCAModel \<Rightarrow> int list \<Rightarrow> batch \<Rightarrow> batch \<Rightarrow> error + real" where
  "adv_loss model y_target x_orig x =
     (let outputs = forward model x in
      bind_err (get_prob (log_it model) outputs y_target (Some x_orig)) neg_log_sum)"

text \<open>
  \<^verbatim>\<open>grad_norm = grad.view(x.size(0), -1).norm(2, 1)\<close>: the L2 norm of one sample's gradient.
\<close>

definition grad_norm :: "vec \<Rightarrow> real" where
  "grad_norm g = sqrt (sum_list (map (\<lambda>a. a ^ 2) g))"

text \<open>
  \<^verbatim>\<open>delta = step_size * grad / grad_norm.view(x.size(0), 1, 1, 1)\<close>: every pixel of a sample
  is multiplied by the step size and divided by the norm of that sample.
\<close>

definition delta_row :: "real \<Rightarrow> vec \<Rightarrow> error + vec" where
  "delta_row step_size g =
     sequence_err (map (\<lambda>a. guarded_div (step_size * a) (grad_norm g)) g)"

definition delta :: "real \<Rightarrow> batch \<Rightarrow> error + batch" where
  "delta step_size grad = sequence_err (map (delta_row step_size) grad)"

definition add_batch :: "batch \<Rightarrow> batch \<Rightarrow> batch" where
  "add_batch x d = map2 (map2 (+)) x d"

text \<open>\<^verbatim>\<open>torch.clamp(x, lo, hi)\<close>\<close>

definition clamp :: "real \<Rightarrow> real \<Rightarrow> batch \<Rightarrow> batch" where
  "clamp lo hi x = map (map (\<lambda>a. min (max a lo) hi)) x"

text \<open>The local variables of \<^verbatim>\<open>forward_adv\<close> that live across the loop.\<close>

record adv_state =
  x_adv :: batch
  outputs_orig :: batch

text \<open>One iteration of the loop.\<close>

definition adv_step ::
  "NCAModel \<Rightarrow> autograd \<Rightarrow> int list \<Rightarrow> real \<Rightarrow> adv_state \<Rightarrow> error + adv_state" where
  "adv_step model autograd y_target step_size s =
     bind_err (adv_loss model y_target (outputs_orig s) (x_adv s)) (\<lambda>loss.
     bind_err (autograd (adv_loss model y_target (outputs_orig s)) (x_adv s)) (\<lambda>grad.
     bind_err (delta step_size grad) (\<lambda>d.
     Inr (s\<lparr>x_adv := clamp 0 1 (add_batch (x_adv s) d)\<rparr>))))"

text \<open>\<^verbatim>\<open>for _ in range(num_steps)\<close>\<close>

fun adv_loop ::
  "NCAModel \<Rightarrow> autograd \<Rightarrow> int list \<Rightarrow> real \<Rightarrow> nat \<Rightarrow> adv_state \<Rightarrow> error + adv_state" where
  "adv_loop model autograd y_target step_size 0 s = Inr s"
| "adv_loop model autograd y_target step_size (Suc n) s =
     bind_err (adv_step model autograd y_target step_size s)
       (adv_loop model autograd y_target step_size n)"

text \<open>
  The state before the loop: the reference outputs \<^verbatim>\<open>outputs_orig = self.forward(x)\<close>, then
  the optional random start \<^verbatim>\<open>x = x + torch.zeros_like(x).normal_(0, step_size)\<close>.
\<close>

definition adv_init :: "NCAModel \<Rightarrow> batch \<Rightarrow> batch \<Rightarrow> real \<Rightarrow> bool \<Rightarrow> error + adv_state" where
  "adv_init model noise x step_size rand =
     (if rand
      then (if step_size < 0 then Inl RuntimeError
            else Inr \<lparr>x_adv = add_batch x noise, outputs_orig = forward model x\<rparr>)
      else Inr \<lparr>x_adv = x, outputs_orig = forward model x\<rparr>)"

text \<open>\<^verbatim>\<open>range(num_steps)\<close> is empty for a negative \<open>num_steps\<close>.\<close>

definition forward_adv ::
  "NCAModel \<Rightarrow> autograd \<Rightarrow> batch \<Rightarrow> batch \<Rightarrow> int list \<Rightarrow> real \<Rightarrow> int \<Rightarrow> bool
   \<Rightarrow> error + batch \<times> batch" where
  "forward_adv model autograd noise x y_target step_size num_steps rand =
     bind_err (adv_init model noise x step_size rand) (\<lambda>s0.
     bind_err (adv_loop model autograd y_target step_size (nat num_steps) s0) (\<lambda>s.
     Inr (outputs_orig s, forward model (x_adv s))))"

text \<open>Every pixel of a batch lies in \<open>[0, 1]\<close>.\<close>

definition in_unit_range :: "batch \<Rightarrow> bool" where
  "in_unit_range x = (\<forall>row \<in> set x. \<forall>p \<in> set row. 0 \<le> p \<and> p \<le> 1)"

subsection \<open>Concrete networks and gradients\<close>

text \<open>
  A network whose embedding is the sum of the pixels, a network with all weights zero, and
  the gradient of a loss that does not depend on the batch.
\<close>

definition sum_pixels_model :: NCAModel where
  "sum_pixels_model = \<lparr>forward = map (\<lambda>img. [sum_list img]), log_it = 0\<rparr>"

definition zero_model :: NCAModel where
  "zero_model = \<lparr>forward = map (\<lambda>img. [0]), log_it = 0\<rparr>"

definition zero_grad :: autograd where
  "zero_grad loss x = Inr (map (map (\<lambda>a. 0)) x)"

text \<open>
  For \<open>sum_pixels_model\<close>, the one-pixel batch \<open>[[0], [0], [1], [1]]\<close> with the labels
  \<open>[0, 0, 1, 1]\<close> and the comparison set \<open>[[0], [0], [1], [1]]\<close>, the loss of sample \<open>i\<close> with
  pixel \<open>t\<close> is \<open>t^2 + ln (exp (- t^2) + 2 * exp (- (t - 1)^2))\<close> for the first two samples and
  \<open>(t - 1)^2 + ln (exp (- (t - 1)^2) + 2 * exp (- t^2))\<close> for the last two. Its derivative is
  \<open>4 / (exp 1 + 2)\<close> at \<open>t = 0\<close> for the first two and \<open>- 4 / (exp 1 + 2)\<close> at \<open>t = 1\<close> for the
  last two: the gradient at that batch.
\<close>

definition mixed_batch :: batch where
  "mixed_batch = [[0], [0], [1], [1]]"

definition mixed_labels :: "int list" where
  "mixed_labels = [0, 0, 1, 1]"

definition mixed_grad :: autograd where
  "mixed_grad loss x =
     Inr [[4 / (exp 1 + 2)], [4 / (exp 1 + 2)], [- (4 / (exp 1 + 2))], [- (4 / (exp 1 + 2))]]"

section \<open>Auxiliary lemmas\<close>

subsection \<open>Errors and loops\<close>

lemma bind_err_Inr [simp]: "bind_err (Inr v) f = f v"
  by (simp add: bind_err_def)

lemma bind_err_Inl [simp]: "bind_err (Inl e) f = Inl e"
  by (simp add: bind_err_def)

lemma sequence_err_map_Inr:
  "(\<And>a. a \<in> set xs \<Longrightarrow> f a = Inr (g a)) \<Longrightarrow> sequence_err (map f xs) = Inr (map g xs)"
  by (induction xs) simp_all

lemma broadcast2_same_length:
  "length a = length b \<Longrightarrow> broadcast2 f a b = Inr (map2 f a b)"
  by (simp add: broadcast2_def)

lemma map2_upt:
  "map2 f (map g [0..<n]) (map h [0..<n]) = map (\<lambda>j. f (g j) (h j)) [0..<n]"
  by (rule nth_equalityI) simp_all

lemma mask_same_upt:
  "i < length y \<Longrightarrow>
   mask_same y i = Inr (map (\<lambda>j. if y ! i = y ! j then 1 else 0) [0..<length y])"
proof -
  assume i: "i < length y"
  have "map (\<lambda>t. if y ! i = t then 1 else (0::real)) y =
        map (\<lambda>j. if y ! i = y ! j then 1 else 0) [0..<length y]"
    by (rule nth_equalityI) simp_all
  with i show ?thesis by (simp add: mask_same_def)
qed

lemma mask_not_self_upt:
  "mask_not_self n i = map (\<lambda>j. if j = i then 0 else 1) [0..<n]"
  unfolding mask_not_self_def by (rule nth_equalityI) (simp_all add: nth_list_update)

lemma dist_to_upt:
  assumes "\<And>r. r \<in> set x_ref \<Longrightarrow> length xi = length r"
  shows "dist_to lit xi x_ref =
         Inr (map (\<lambda>j. sum_list (map (\<lambda>c. c ^ 2) (map2 (\<lambda>u v. u - v) xi (x_ref ! j))) * exp lit)
                  [0..<length x_ref])"
proof -
  have "dist_to lit xi x_ref =
        Inr (map (\<lambda>r. sum_list (map (\<lambda>c. c ^ 2) (map2 (\<lambda>u v. u - v) xi r)) * exp lit) x_ref)"
    unfolding dist_to_def
    by (rule sequence_err_map_Inr) (simp add: sq_diff_sum_def broadcast2_same_length assms)
  also have "map (\<lambda>r. sum_list (map (\<lambda>c. c ^ 2) (map2 (\<lambda>u v. u - v) xi r)) * exp lit) x_ref =
     map (\<lambda>j. sum_list (map (\<lambda>c. c ^ 2) (map2 (\<lambda>u v. u - v) xi (x_ref ! j))) * exp lit)
                  [0..<length x_ref]"
    by (rule nth_equalityI) simp_all
  finally show ?thesis .
qed

lemma get_prob_entry_sums:
  assumes i: "i < length x" and y: "length y = length x"
    and r: "length (ref_of x xo) = length x" and m: "rows_match x (ref_of x xo)"
  shows "get_prob_entry lit x y xo i =
         guarded_div
           (\<Sum>j<length x. (if j = i then 0 else 1) * (if y ! i = y ! j then 1 else 0)
                            * weight lit (x ! i) (ref_of x xo ! j))
           (\<Sum>j<length x. (if j = i then 0 else 1) * weight lit (x ! i) (ref_of x xo ! j))"
proof -
  have len: "\<And>r. r \<in> set (ref_of x xo) \<Longrightarrow> length (x ! i) = length r"
    using m i by (simp add: rows_match_def)
  have d: "dist_to lit (x ! i) (ref_of x xo) =
         Inr (map (\<lambda>j. sum_list (map (\<lambda>c. c ^ 2) (map2 (\<lambda>u v. u - v) (x ! i) (ref_of x xo ! j))) * exp lit)
                  [0..<length x])"
    using dist_to_upt [OF len, of "ref_of x xo" lit] r by simp
  show ?thesis
    unfolding get_prob_entry_def Let_def
    using i y d
    apply (simp add: mask_same_upt mask_not_self_upt ref_of_def [symmetric])
    apply (simp add: broadcast2_same_length map2_upt o_def)
    apply (simp add: weight_def interv_sum_list_conv_sum_set_nat atLeast0LessThan o_def)
    done
qed

lemma weight_pos: "0 < weight lit a b"
  by (simp add: weight_def)

lemma denom_pos:
  assumes "2 \<le> length x" and "i < length x"
  shows "0 < denom lit x x_ref i"
proof -
  define j where "j = (if i = 0 then 1 else 0 :: nat)"
  have j: "j < length x" "j \<noteq> i"
    using assms by (auto simp: j_def)
  have "0 < (if j = i then 0 else 1) * weight lit (x ! i) (x_ref ! j)"
    using j by (simp add: weight_pos)
  moreover have "\<And>k. 0 \<le> (if k = i then 0 else 1) * weight lit (x ! i) (x_ref ! k)"
    using weight_pos [of lit] by (simp add: less_imp_le)
  ultimately show ?thesis
    unfolding denom_def using j(1)
    by (intro sum_pos2 [where i = j]) simp_all
qed

lemma numer_nonneg: "0 \<le> numer lit x y x_ref i"
  unfolding numer_def using weight_pos [of lit]
  by (intro sum_nonneg) (simp add: less_imp_le)

lemma numer_le_denom: "numer lit x y x_ref i \<le> denom lit x x_ref i"
  unfolding numer_def denom_def using weight_pos [of lit]
  by (intro sum_mono) (simp add: less_imp_le)

lemma get_prob_quotients:
  assumes n: "2 \<le> length x" and y: "length y = length x"
    and r: "length (ref_of x xo) = length x" and m: "rows_match x (ref_of x xo)"
  shows "get_prob lit x y xo =
         Inr (map (\<lambda>i. numer lit x y (ref_of x xo) i / denom lit x (ref_of x xo) i) [0..<length x])"
proof -
  have a: "\<not> (case xo of Some xo' \<Rightarrow> length x \<noteq> length xo' | None \<Rightarrow> False)"
    using r by (cases xo) (simp_all add: ref_of_def)
  have e: "get_prob_entry lit x y xo i =
           Inr (numer lit x y (ref_of x xo) i / denom lit x (ref_of x xo) i)"
    if "i \<in> set [0..<length x]" for i
  proof -
    from that have i: "i < length x" by simp
    have "denom lit x (ref_of x xo) i \<noteq> 0"
      using denom_pos [OF n i, of lit "ref_of x xo"] by simp
    then show ?thesis
      using get_prob_entry_sums [OF i y r m, of lit]
      by (simp add: numer_def denom_def guarded_div_def)
  qed
  show ?thesis
    unfolding get_prob_def
    using a sequence_err_map_Inr [of "[0..<length x]" "get_prob_entry lit x y xo"
        "\<lambda>i. numer lit x y (ref_of x xo) i / denom lit x (ref_of x xo) i"] e
    by simp
qed

lemma sq_diff_sum_eq:
  assumes "length a = length b"
  shows "sum_list (map (\<lambda>c. c ^ 2) (map2 (\<lambda>u v. u - v) a b)) = sq_euclid a b"
proof -
  have "map (\<lambda>c. c ^ 2) (map2 (\<lambda>u v. u - v) a b) = map (\<lambda>k. (a ! k - b ! k) ^ 2) [0..<length a]"
    using assms by (intro nth_equalityI) simp_all
  then show ?thesis
    by (simp add: sq_euclid_def interv_sum_list_conv_sum_set_nat atLeast0LessThan)
qed

lemma numer_filter:
  "numer lit x y x_ref i =
   (\<Sum>j \<in> {j. j < length x \<and> j \<noteq> i \<and> y ! j = y ! i}. weight lit (x ! i) (x_ref ! j))"
proof -
  have "numer lit x y x_ref i =
        (\<Sum>j \<in> {..<length x}. if j \<noteq> i \<and> y ! j = y ! i then weight lit (x ! i) (x_ref ! j) else 0)"
    unfolding numer_def by (intro sum.cong) auto
  also have "\<dots> = (\<Sum>j \<in> {j \<in> {..<length x}. j \<noteq> i \<and> y ! j = y ! i}. weight lit (x ! i) (x_ref ! j))"
    by (rule sum.inter_filter [symmetric]) simp
  also have "{j \<in> {..<length x}. j \<noteq> i \<and> y ! j = y ! i} = {j. j < length x \<and> j \<noteq> i \<and> y ! j = y ! i}"
    by auto
  finally show ?thesis .
qed

lemma denom_filter:
  "denom lit x x_ref i = (\<Sum>j \<in> {j. j < length x \<and> j \<noteq> i}. weight lit (x ! i) (x_ref ! j))"
proof -
  have "denom lit x x_ref i =
        (\<Sum>j \<in> {..<length x}. if j \<noteq> i then weight lit (x ! i) (x_ref ! j) else 0)"
    unfolding denom_def by (intro sum.cong) auto
  also have "\<dots> = (\<Sum>j \<in> {j \<in> {..<length x}. j \<noteq> i}. weight lit (x ! i) (x_ref ! j))"
    by (rule sum.inter_filter [symmetric]) simp
  also have "{j \<in> {..<length x}. j \<noteq> i} = {j. j < length x \<and> j \<noteq> i}"
    by auto
  finally show ?thesis .
qed

subsection \<open>The gradient step\<close>

lemma sequence_err_Inl_DivisionByZero:
  assumes "\<And>m. m \<in> set ms \<Longrightarrow> m = Inl DivisionByZero \<or> (\<exists>v. m = Inr v)"
    and "Inl DivisionByZero \<in> set ms"
  shows "sequence_err ms = Inl DivisionByZero"
  using assms
proof (induction ms)
  case Nil
  then show ?case by simp
next
  case (Cons m ms)
  show ?case
  proof (cases m)
    case (Inl e)
    with Cons.prems(1) [of m] show ?thesis by simp
  next
    case (Inr v)
    with Cons.prems have "Inl DivisionByZero \<in> set ms" by auto
    with Cons have "sequence_err ms = Inl DivisionByZero" by simp
    with Inr show ?thesis by simp
  qed
qed

lemma delta_row_cases:
  "delta_row step_size g = Inl DivisionByZero \<or> (\<exists>d. delta_row step_size g = Inr d)"
proof (cases "grad_norm g = 0 \<and> g \<noteq> []")
  case True
  then have "delta_row step_size g = Inl DivisionByZero"
    unfolding delta_row_def
    by (intro sequence_err_Inl_DivisionByZero) (auto simp: guarded_div_def image_constant_conv)
  then show ?thesis ..
next
  case False
  then have "delta_row step_size g = Inr (map (\<lambda>a. step_size * a / grad_norm g) g)"
    unfolding delta_row_def
    by (intro sequence_err_map_Inr) (auto simp: guarded_div_def)
  then show ?thesis by blast
qed

lemma delta_row_zero_norm:
  assumes "g \<noteq> []" and "grad_norm g = 0"
  shows "delta_row step_size g = Inl DivisionByZero"
  unfolding delta_row_def using assms
  by (intro sequence_err_Inl_DivisionByZero) (auto simp: guarded_div_def image_constant_conv)

lemma delta_row_nonzero_norm:
  assumes "grad_norm g \<noteq> 0"
  shows "delta_row step_size g = Inr (map (\<lambda>a. step_size * a / grad_norm g) g)"
  unfolding delta_row_def using assms
  by (intro sequence_err_map_Inr) (simp add: guarded_div_def)

lemma delta_zero_norm:
  assumes "i < length grad" and "grad ! i \<noteq> []" and "grad_norm (grad ! i) = 0"
  shows "delta step_size grad = Inl DivisionByZero"
proof -
  have "Inl DivisionByZero \<in> set (map (delta_row step_size) grad)"
    using assms delta_row_zero_norm [of "grad ! i" step_size]
    by (metis (no_types, lifting) length_map nth_map nth_mem)
  moreover have "m = Inl DivisionByZero \<or> (\<exists>v. m = Inr v)"
    if "m \<in> set (map (delta_row step_size) grad)" for m
    using that delta_row_cases by auto
  ultimately show ?thesis
    unfolding delta_def by (intro sequence_err_Inl_DivisionByZero)
qed

lemma delta_nonzero_norm:
  assumes "\<forall>g \<in> set grad. grad_norm g \<noteq> 0"
  shows "delta step_size grad = Inr (map (\<lambda>g. map (\<lambda>a. step_size * a / grad_norm g) g) grad)"
  unfolding delta_def using assms
  by (intro sequence_err_map_Inr) (simp add: delta_row_nonzero_norm)

lemma clamp_in_unit_range: "in_unit_range (clamp 0 1 x)"
  by (auto simp: in_unit_range_def clamp_def)

lemma grad_norm_scale:
  "grad_norm (map (\<lambda>a. c * a / n) g) = \<bar>c\<bar> * grad_norm g / \<bar>n\<bar>"
proof -
  have "(\<Sum>a\<leftarrow>g. (c * a / n) ^ 2) = (c / n) ^ 2 * (\<Sum>a\<leftarrow>g. a ^ 2)"
    by (induction g) (simp_all add: power_mult_distrib power_divide algebra_simps)
  then have "grad_norm (map (\<lambda>a. c * a / n) g) = sqrt ((c / n) ^ 2 * (\<Sum>a\<leftarrow>g. a ^ 2))"
    by (simp add: grad_norm_def o_def)
  also have "\<dots> = \<bar>c / n\<bar> * grad_norm g"
    by (simp add: real_sqrt_mult grad_norm_def)
  finally show ?thesis by (simp add: abs_divide)
qed

lemma grad_norm_nonneg: "0 \<le> grad_norm g"
  unfolding grad_norm_def by (intro real_sqrt_ge_zero sum_list_nonneg) auto

lemma adv_step_outputs_orig:
  "adv_step model autograd y step_size s = Inr s' \<Longrightarrow> outputs_orig s' = outputs_orig s"
  by (auto simp: adv_step_def bind_err_def split: sum.splits)

lemma adv_step_in_unit_range:
  "adv_step model autograd y step_size s = Inr s' \<Longrightarrow> in_unit_range (x_adv s')"
  by (auto simp: adv_step_def bind_err_def clamp_in_unit_range split: sum.splits)

lemma adv_loop_outputs_orig:
  "adv_loop model autograd y step_size n s = Inr s' \<Longrightarrow> outputs_orig s' = outputs_orig s"
proof (induction n arbitrary: s)
  case 0
  then show ?case by simp
next
  case (Suc n)
  then show ?case
    by (auto simp: bind_err_def split: sum.splits dest: adv_step_outputs_orig)
qed

lemma adv_loop_Suc_end:
  "adv_loop model autograd y step_size (Suc n) s =
   bind_err (adv_loop model autograd y step_size n s) (adv_step model autograd y step_size)"
proof (induction n arbitrary: s)
  case 0
  then show ?case by (simp add: bind_err_def split: sum.splits)
next
  case (Suc n)
  show ?case
  proof (cases "adv_step model autograd y step_size s")
    case (Inl e)
    then show ?thesis by simp
  next
    case (Inr s1)
    then show ?thesis using Suc [of s1] by simp
  qed
qed

lemma adv_loop_in_unit_range:
  assumes "0 < n" and "adv_loop model autograd y step_size n s = Inr s'"
  shows "in_unit_range (x_adv s')"
proof -
  from assms(1) obtain k where n: "n = Suc k" by (cases n) auto
  from assms(2) show ?thesis
    unfolding n adv_loop_Suc_end
    by (auto simp: bind_err_def split: sum.splits dest: adv_step_in_unit_range)
qed

subsection \<open>Evaluation on concrete batches\<close>

lemma get_prob_two_equal: "get_prob 0 [[0], [0]] [0, 0] (Some [[0], [0]]) = Inr [1, 1]"
  by (simp add: get_prob_def get_prob_entry_def mask_same_def mask_not_self_def dist_to_def
      sq_diff_sum_def broadcast2_def guarded_div_def)

lemma neg_log_sum_ones: "neg_log_sum [1, 1] = Inr 0"
  by (simp add: neg_log_sum_def guarded_log_def)

lemma zero_model_loss: "adv_loss zero_model [0, 0] [[0], [0]] [[1 / 2], [1 / 2]] = Inr 0"
  by (simp add: adv_loss_def zero_model_def get_prob_two_equal neg_log_sum_ones)

lemma delta_zero_example: "delta 1 [[0], [0]] = Inl DivisionByZero"
  by (simp add: delta_def delta_row_def grad_norm_def guarded_div_def)

lemma zero_model_step:
  "adv_step zero_model zero_grad [0, 0] 1
     \<lparr>x_adv = [[1 / 2], [1 / 2]], outputs_orig = [[0], [0]]\<rparr> = Inl DivisionByZero"
  by (simp add: adv_step_def zero_model_loss zero_grad_def delta_zero_example)

lemma numer_pos:
  assumes "j < length x" and "j \<noteq> i" and "y ! j = y ! i"
  shows "0 < numer lit x y x_ref i"
proof -
  have "0 < (if j = i then 0 else 1) * (if y ! i = y ! j then 1 else 0)
            * weight lit (x ! i) (x_ref ! j)"
    using assms by (simp add: weight_pos)
  moreover have "\<And>k. 0 \<le> (if k = i then 0 else 1) * (if y ! i = y ! k then 1 else 0)
                        * weight lit (x ! i) (x_ref ! k)"
    using weight_pos [of lit] by (simp add: less_imp_le)
  ultimately show ?thesis
    unfolding numer_def using assms(1)
    by (intro sum_pos2 [where i = j]) simp_all
qed

lemma neg_log_sum_positive:
  assumes "\<forall>v \<in> set p. 0 < v"
  shows "neg_log_sum p = Inr (- sum_list (map ln p))"
proof -
  have "sequence_err (map guarded_log p) = Inr (map ln p)"
    using assms by (intro sequence_err_map_Inr) (auto simp: guarded_log_def)
  then show ?thesis by (simp add: neg_log_sum_def)
qed

lemma delta_row_single: "a \<noteq> 0 \<Longrightarrow> delta_row c [a] = Inr [c * a / \<bar>a\<bar>]"
  by (simp add: delta_row_def grad_norm_def guarded_div_def)

lemma mixed_loss:
  "\<exists>l. adv_loss sum_pixels_model mixed_labels mixed_batch mixed_batch = Inr l"
proof -
  have h1: "2 \<le> length mixed_batch" by (simp add: mixed_batch_def)
  have h2: "length mixed_labels = length mixed_batch"
    by (simp add: mixed_batch_def mixed_labels_def)
  have h3: "length (ref_of mixed_batch (Some mixed_batch)) = length mixed_batch"
    by (simp add: ref_of_def)
  have h4: "rows_match mixed_batch (ref_of mixed_batch (Some mixed_batch))"
    by (simp add: ref_of_def rows_match_def mixed_batch_def)
  let ?p = "map (\<lambda>i. numer 0 mixed_batch mixed_labels mixed_batch i / denom 0 mixed_batch mixed_batch i)
              [0..<length mixed_batch]"
  have g: "get_prob 0 mixed_batch mixed_labels (Some mixed_batch) = Inr ?p"
    using get_prob_quotients [OF h1 h2 h3 h4, of 0] by (simp add: ref_of_def)
  have "0 < numer 0 mixed_batch mixed_labels mixed_batch i / denom 0 mixed_batch mixed_batch i"
    if i: "i < length mixed_batch" for i
  proof -
    define j :: nat where "j = (if i = 0 then 1 else if i = 1 then 0 else if i = 2 then 3 else 2)"
    from i have "i = 0 \<or> i = 1 \<or> i = 2 \<or> i = 3"
      by (auto simp: mixed_batch_def)
    then have j: "j < length mixed_batch" "j \<noteq> i" "mixed_labels ! j = mixed_labels ! i"
      by (auto simp: j_def mixed_batch_def mixed_labels_def)
    show ?thesis
      using numer_pos [OF j, of 0 mixed_batch] denom_pos [OF h1 i, of 0 mixed_batch]
      by simp
  qed
  then have "\<forall>v \<in> set ?p. 0 < v" by auto
  then have "neg_log_sum ?p = Inr (- sum_list (map ln ?p))"
    by (rule neg_log_sum_positive)
  moreover have "forward sum_pixels_model mixed_batch = mixed_batch"
    by (simp add: sum_pixels_model_def mixed_batch_def)
  moreover have "log_it sum_pixels_model = 0"
    by (simp add: sum_pixels_model_def)
  ultimately show ?thesis
    using g by (simp add: adv_loss_def)
qed

lemma mixed_delta:
  "delta (1 / 4)
     [[4 / (exp 1 + 2)], [4 / (exp 1 + 2)], [- (4 / (exp 1 + 2))], [- (4 / (exp 1 + 2))]] =
   Inr [[1 / 4], [1 / 4], [- (1 / 4)], [- (1 / 4)]]"
proof -
  have p: "(0 :: real) < 4 / (exp 1 + 2)"
    by (simp add: add_pos_pos)
  then have n: "4 / (exp 1 + 2) \<noteq> (0 :: real)" "- (4 / (exp 1 + 2)) \<noteq> (0 :: real)"
    by simp_all
  have a: "delta_row (1 / 4) [4 / (exp 1 + 2)] = Inr [1 / 4]"
    using delta_row_single [OF n(1), of "1 / 4"] p by simp
  have b: "delta_row (1 / 4) [- (4 / (exp 1 + 2))] = Inr [- (1 / 4)]"
    using delta_row_single [OF n(2), of "1 / 4"] p by simp
  show ?thesis by (simp add: delta_def a b)
qed

lemma mixed_step:
  "adv_step sum_pixels_model mixed_grad mixed_labels (1 / 4)
     \<lparr>x_adv = mixed_batch, outputs_orig = mixed_batch\<rparr> =
   Inr \<lparr>x_adv = [[1 / 4], [1 / 4], [3 / 4], [3 / 4]], outputs_orig = mixed_batch\<rparr>"
proof -
  obtain l where l: "adv_loss sum_pixels_model mixed_labels mixed_batch mixed_batch = Inr l"
    using mixed_loss by blast
  have c: "clamp 0 1 (add_batch mixed_batch [[1 / 4], [1 / 4], [- (1 / 4)], [- (1 / 4)]]) =
           [[1 / 4], [1 / 4], [3 / 4], [3 / 4]]"
    by (simp add: clamp_def add_batch_def mixed_batch_def)
  show ?thesis
    by (simp add: adv_step_def l mixed_grad_def mixed_delta c)
qed

section \<open>Properties\<close>

subsection \<open>KNNModel\<close>

text \<open>
  C9. \<^verbatim>\<open>KNNModel.forward\<close> is the identity: for every input it returns the input unchanged.
\<close>

theorem KNNModel_forward_identity: "KNNModel_forward x = x"
  by (simp add: KNNModel_forward_def identity_def)

subsection \<open>get_prob\<close>

text \<open>
  C1. For a batch \<open>x\<close> of \<open>N \<ge> 2\<close> embeddings of one dimension \<open>D\<close> and a label vector of
  length \<open>N\<close>, \<^verbatim>\<open>get_prob\<close> called without \<open>x_orig\<close> returns, for each \<open>i\<close>, the sum of
  \<open>exp (- d[i,j])\<close> over the \<open>j \<noteq> i\<close> with the label of \<open>i\<close>, divided by the sum over all
  \<open>j \<noteq> i\<close>, where \<open>d[i,j]\<close> is the squared Euclidean distance scaled by \<open>exp log_it\<close> and
  clamped above at 50.
\<close>

theorem get_prob_formula:
  assumes "2 \<le> length x" and "length y = length x" and "\<forall>r \<in> set x. length r = D"
  shows "get_prob lit x y None = Inr (map (p_target_spec lit x y) [0..<length x])"
proof -
  have m: "rows_match x (ref_of x None)"
    using assms(3) by (simp add: rows_match_def ref_of_def)
  have r: "length (ref_of x None) = length x"
    by (simp add: ref_of_def)
  have w: "weight lit (x ! i) (x ! j) = exp (- d_clamped lit x i j)"
    if "i < length x" "j < length x" for i j
  proof -
    have "length (x ! i) = length (x ! j)"
      using assms(3) that by simp
    then have "sum_list (map (\<lambda>c. c ^ 2) (map2 (\<lambda>u v. u - v) (x ! i) (x ! j))) =
               sq_euclid (x ! i) (x ! j)"
      by (rule sq_diff_sum_eq)
    then show ?thesis
      by (simp only: weight_def d_clamped_def)
  qed
  have "numer lit x y x i / denom lit x x i = p_target_spec lit x y i" if "i < length x" for i
  proof -
    have "numer lit x y x i =
          (\<Sum>j \<in> {j. j < length x \<and> j \<noteq> i \<and> y ! j = y ! i}. exp (- d_clamped lit x i j))"
      unfolding numer_filter using that by (intro sum.cong) (simp_all add: w)
    moreover have "denom lit x x i =
          (\<Sum>j \<in> {j. j < length x \<and> j \<noteq> i}. exp (- d_clamped lit x i j))"
      unfolding denom_filter using that by (intro sum.cong) (simp_all add: w)
    ultimately show ?thesis
      by (simp add: p_target_spec_def)
  qed
  then have "map (\<lambda>i. numer lit x y x i / denom lit x x i) [0..<length x] =
             map (p_target_spec lit x y) [0..<length x]"
    by simp
  then show ?thesis
    using get_prob_quotients [OF assms(1,2) r m, of lit] by (simp add: ref_of_def)
qed

theorem get_prob_formula_witness:
  "2 \<le> length [[0], [1 :: real]] \<and> length [0, 1 :: int] = length [[0], [1 :: real]] \<and>
   list_all (\<lambda>r. length r = 1) [[0], [1 :: real]] \<and>
   get_prob 0 [[0], [1]] [0, 1] None =
     Inr (map (p_target_spec 0 [[0], [1]] [0, 1]) [0..<length [[0], [1 :: real]]])"
proof -
  have h1: "2 \<le> length [[0], [1 :: real]]" by simp
  have h2: "length [0, 1 :: int] = length [[0], [1 :: real]]" by simp
  have h3: "\<forall>r \<in> set [[0], [1 :: real]]. length r = 1" by simp
  from get_prob_formula [OF h1 h2 h3, of 0] show ?thesis by simp
qed

text \<open>
  C5. For a batch of \<open>N \<ge> 2\<close> embeddings in which no two samples share a label,
  \<^verbatim>\<open>get_prob\<close> returns 0 for every sample: no \<open>j \<noteq> i\<close> has the label of \<open>i\<close>. It holds with
  and without \<open>x_orig\<close>.
\<close>

theorem get_prob_unique_labels:
  assumes "2 \<le> length x" and "length y = length x"
    and "length (ref_of x xo) = length x" and "rows_match x (ref_of x xo)"
    and "distinct y"
  shows "get_prob lit x y xo = Inr (replicate (length x) 0)"
proof -
  have "numer lit x y (ref_of x xo) i = 0" if "i < length x" for i
  proof -
    have "{j. j < length x \<and> j \<noteq> i \<and> y ! j = y ! i} = {}"
      using assms(2,5) that by (auto simp: nth_eq_iff_index_eq)
    then show ?thesis unfolding numer_filter by (simp only: sum.empty)
  qed
  then have "map (\<lambda>i. numer lit x y (ref_of x xo) i / denom lit x (ref_of x xo) i) [0..<length x] =
             map (\<lambda>i. 0) [0..<length x]"
    by simp
  then show ?thesis
    using get_prob_quotients [OF assms(1-4), of lit] by (simp add: map_replicate_const)
qed

theorem get_prob_unique_labels_witness:
  "get_prob 0 [[0], [1]] [0, 1] None = Inr [0, 0]"
proof -
  have h1: "2 \<le> length [[0], [1 :: real]]" by simp
  have h2: "length [0, 1 :: int] = length [[0], [1 :: real]]" by simp
  have h3: "length (ref_of [[0], [1 :: real]] None) = length [[0], [1 :: real]]"
    by (simp add: ref_of_def)
  have h4: "rows_match [[0], [1 :: real]] (ref_of [[0], [1]] None)"
    by (simp add: ref_of_def rows_match_def)
  have h5: "distinct [0, 1 :: int]" by simp
  from get_prob_unique_labels [OF h1 h2 h3 h4 h5, of 0] show ?thesis
    by (simp add: numeral_2_eq_2)
qed

text \<open>
  C6. For a batch of \<open>N \<ge> 2\<close> embeddings whose samples all carry one label, \<^verbatim>\<open>get_prob\<close>
  returns 1 for every sample: numerator and denominator are the same sum. It holds with and
  without \<open>x_orig\<close>.
\<close>

theorem get_prob_single_label:
  assumes "2 \<le> length x" and "length y = length x"
    and "length (ref_of x xo) = length x" and "rows_match x (ref_of x xo)"
    and "\<forall>t \<in> set y. t = c"
  shows "get_prob lit x y xo = Inr (replicate (length x) 1)"
proof -
  have "numer lit x y (ref_of x xo) i / denom lit x (ref_of x xo) i = 1" if "i < length x" for i
  proof -
    have c: "y ! j = c" if "j < length x" for j
      using assms(2,5) that by (metis nth_mem)
    have "{j. j < length x \<and> j \<noteq> i \<and> y ! j = y ! i} = {j. j < length x \<and> j \<noteq> i}"
      using c that by auto
    then have "numer lit x y (ref_of x xo) i = denom lit x (ref_of x xo) i"
      by (simp add: numer_filter denom_filter)
    then show ?thesis
      using denom_pos [OF assms(1) that, of lit "ref_of x xo"] by simp
  qed
  then have "\<And>i. i \<in> set [0..<length x] \<Longrightarrow>
      numer lit x y (ref_of x xo) i / denom lit x (ref_of x xo) i = 1"
    by (simp only: set_upt atLeastLessThan_iff)
  then have "map (\<lambda>i. numer lit x y (ref_of x xo) i / denom lit x (ref_of x xo) i) [0..<length x] =
             map (\<lambda>i. 1) [0..<length x]"
    by (rule map_cong [OF refl])
  then show ?thesis
    using get_prob_quotients [OF assms(1-4), of lit] by (simp add: map_replicate_const)
qed

theorem get_prob_single_label_witness:
  "get_prob 0 [[0], [1]] [3, 3] (Some [[2], [5]]) = Inr [1, 1]"
proof -
  have h1: "2 \<le> length [[0], [1 :: real]]" by simp
  have h2: "length [3, 3 :: int] = length [[0], [1 :: real]]" by simp
  have h3: "length (ref_of [[0], [1 :: real]] (Some [[2], [5]])) = length [[0], [1 :: real]]"
    by (simp add: ref_of_def)
  have h4: "rows_match [[0], [1 :: real]] (ref_of [[0], [1]] (Some [[2], [5]]))"
    by (simp add: ref_of_def rows_match_def)
  have h5: "\<forall>t \<in> set [3, 3 :: int]. t = 3" by simp
  from get_prob_single_label [OF h1 h2 h3 h4 h5, of 0] show ?thesis
    by (simp add: numeral_2_eq_2)
qed

text \<open>
  C10. For a batch of \<open>N \<ge> 2\<close> embeddings and any label vector of length \<open>N\<close>, \<^verbatim>\<open>get_prob\<close>
  returns a vector of \<open>N\<close> entries, each in \<open>[0, 1]\<close>: the denominator is positive and the
  numerator is a part of it.
\<close>

theorem get_prob_in_unit_interval:
  assumes "2 \<le> length x" and "length y = length x"
    and "length (ref_of x xo) = length x" and "rows_match x (ref_of x xo)"
  shows "\<exists>p. get_prob lit x y xo = Inr p \<and> length p = length x \<and> (\<forall>v \<in> set p. 0 \<le> v \<and> v \<le> 1)"
proof -
  let ?p = "map (\<lambda>i. numer lit x y (ref_of x xo) i / denom lit x (ref_of x xo) i) [0..<length x]"
  have "0 \<le> v \<and> v \<le> 1" if "v \<in> set ?p" for v
  proof -
    from that obtain i where i: "i < length x"
      and v: "v = numer lit x y (ref_of x xo) i / denom lit x (ref_of x xo) i"
      by auto
    have d: "0 < denom lit x (ref_of x xo) i"
      by (rule denom_pos [OF assms(1) i])
    show ?thesis
      unfolding v using d numer_nonneg [of lit x y "ref_of x xo" i]
        numer_le_denom [of lit x y "ref_of x xo" i]
      by (simp add: divide_le_eq)
  qed
  then show ?thesis
    using get_prob_quotients [OF assms, of lit] by simp
qed

theorem get_prob_in_unit_interval_witness:
  "\<exists>p. get_prob 0 [[0], [1], [4]] [7, 8, 7] None = Inr p \<and> length p = 3 \<and>
       (\<forall>v \<in> set p. 0 \<le> v \<and> v \<le> 1)"
proof -
  have h1: "2 \<le> length [[0], [1], [4 :: real]]" by simp
  have h2: "length [7, 8, 7 :: int] = length [[0], [1], [4 :: real]]" by simp
  have h3: "length (ref_of [[0], [1], [4 :: real]] None) = length [[0], [1], [4 :: real]]"
    by (simp add: ref_of_def)
  have h4: "rows_match [[0], [1], [4 :: real]] (ref_of [[0], [1], [4]] None)"
    by (simp add: ref_of_def rows_match_def)
  from get_prob_in_unit_interval [OF h1 h2 h3 h4, of 0] show ?thesis
    by (simp add: numeral_3_eq_3)
qed

subsection \<open>forward_adv\<close>

text \<open>
  C2. With \<open>num_steps = 0\<close> the loop does nothing. When \<open>rand\<close> is true and \<open>step_size\<close> is
  negative the draw of the noise raises. Otherwise the first component of the result is the
  embedding of the original batch, and the second is the embedding of the batch the loop
  started from: the original batch when \<open>rand\<close> is false, the original batch plus the noise
  when \<open>rand\<close> is true.
\<close>

theorem forward_adv_zero_steps:
  "forward_adv model autograd noise x y step_size 0 rand =
   (if rand \<and> step_size < 0 then Inl RuntimeError
    else Inr (forward model x, forward model (if rand then add_batch x noise else x)))"
  by (simp add: forward_adv_def adv_init_def)

theorem forward_adv_zero_steps_witness:
  "forward_adv sum_pixels_model zero_grad [[1]] [[0]] [0] 1 0 False = Inr ([[0]], [[0]]) \<and>
   forward_adv sum_pixels_model zero_grad [[1]] [[0]] [0] (- 1) 0 True = Inl RuntimeError"
  using forward_adv_zero_steps [of sum_pixels_model zero_grad "[[1]]" "[[0]]" "[0]" 1 False]
    forward_adv_zero_steps [of sum_pixels_model zero_grad "[[1]]" "[[0]]" "[0]" "- 1" True]
  by (simp add: sum_pixels_model_def)

text \<open>
  With \<open>rand\<close> true the second component is the embedding of the noisy batch: for the
  network that sums the pixels, the batch \<open>[[0]]\<close> and the noise \<open>[[1]]\<close> it is \<open>[[1]]\<close>, not
  the embedding \<open>[[0]]\<close> of the original batch.
\<close>

theorem forward_adv_zero_steps_rand_counterexample:
  "forward_adv sum_pixels_model zero_grad [[1]] [[0]] [0] 1 0 True \<noteq>
   Inr (forward sum_pixels_model [[0]], forward sum_pixels_model [[0]])"
  by (simp add: forward_adv_def adv_init_def add_batch_def sum_pixels_model_def)

text \<open>
  C3. The normalisation has no floor on the norm. In an iteration whose loss and gradient are
  computed, if the gradient of some sample (with at least one pixel, as every image has) has
  L2 norm zero, the computation of \<open>delta\<close> divides by zero.
\<close>

theorem adv_step_zero_gradient_norm:
  assumes "adv_loss model y (outputs_orig s) (x_adv s) = Inr l"
    and "autograd (adv_loss model y (outputs_orig s)) (x_adv s) = Inr grad"
    and "i < length grad" and "grad ! i \<noteq> []" and "grad_norm (grad ! i) = 0"
  shows "adv_step model autograd y step_size s = Inl DivisionByZero"
  using assms(1,2) delta_zero_norm [OF assms(3-5), of step_size]
  by (simp add: adv_step_def)

theorem adv_step_zero_gradient_norm_witness:
  "adv_loss zero_model [0, 0] [[0], [0]] [[1 / 2], [1 / 2]] = Inr 0 \<and>
   zero_grad (adv_loss zero_model [0, 0] [[0], [0]]) [[1 / 2], [1 / 2]] = Inr [[0], [0]] \<and>
   grad_norm ([[0], [0]] ! 0) = 0 \<and>
   adv_step zero_model zero_grad [0, 0] 1
     \<lparr>x_adv = [[1 / 2], [1 / 2]], outputs_orig = [[0], [0]]\<rparr> = Inl DivisionByZero"
proof -
  let ?s = "\<lparr>x_adv = [[1 / 2], [1 / 2 :: real]], outputs_orig = [[0], [0 :: real]]\<rparr>"
  have h1: "adv_loss zero_model [0, 0] (outputs_orig ?s) (x_adv ?s) = Inr 0"
    by (simp add: zero_model_loss)
  have h2: "zero_grad (adv_loss zero_model [0, 0] (outputs_orig ?s)) (x_adv ?s) = Inr [[0], [0]]"
    by (simp add: zero_grad_def)
  have h3: "0 < length [[0], [0 :: real]]" by simp
  have h4: "[[0], [0 :: real]] ! 0 \<noteq> []" by simp
  have h5: "grad_norm ([[0], [0]] ! 0) = 0" by (simp add: grad_norm_def)
  from adv_step_zero_gradient_norm [where model = zero_model and autograd = zero_grad
      and y = "[0, 0]" and s = ?s and l = 0 and grad = "[[0], [0]]" and i = 0
      and step_size = 1, OF h1 h2 h3 h4 h5] h1 h2 h5
  show ?thesis by simp
qed

text \<open>
  C4. The clamp at the end of an iteration is to keep every pixel in \<open>[0, 1]\<close>. It does not
  when the gradient of a sample is zero: the division by the norm is 0/0, and the clamp
  leaves what is not a number. For two samples of one label the loss is constant and its
  gradient is zero; one iteration from such a batch yields no batch with pixels in
  \<open>[0, 1]\<close> but the division by zero.
\<close>

theorem forward_adv_zero_gradient:
  "forward_adv zero_model zero_grad [] [[1 / 2], [1 / 2]] [0, 0] 1 1 False =
   Inl DivisionByZero"
proof -
  have i: "adv_init zero_model [] [[1 / 2], [1 / 2]] 1 False =
           Inr \<lparr>x_adv = [[1 / 2], [1 / 2]], outputs_orig = [[0], [0]]\<rparr>"
    by (simp add: adv_init_def zero_model_def)
  show ?thesis
    by (simp add: forward_adv_def i zero_model_step)
qed

text \<open>
  C7. For a sample whose gradient has a nonzero L2 norm, the update
  \<open>step_size * grad / grad_norm\<close> is computed and its L2 norm is the absolute value of
  \<open>step_size\<close>; it is \<open>step_size\<close> itself when \<open>step_size\<close> is not negative.
\<close>

theorem delta_row_norm:
  assumes "grad_norm g \<noteq> 0"
  shows "\<exists>d. delta_row step_size g = Inr d \<and> grad_norm d = \<bar>step_size\<bar>"
proof -
  have "grad_norm (map (\<lambda>a. step_size * a / grad_norm g) g) = \<bar>step_size\<bar>"
    using assms grad_norm_nonneg [of g] by (simp add: grad_norm_scale)
  then show ?thesis
    using delta_row_nonzero_norm [OF assms, of step_size] by simp
qed

theorem delta_row_norm_witness:
  "grad_norm [1] \<noteq> 0 \<and> (\<exists>d. delta_row 2 [1] = Inr d \<and> grad_norm d = \<bar>2\<bar>)"
proof -
  have h: "grad_norm [1] \<noteq> 0" by (simp add: grad_norm_def)
  from delta_row_norm [OF h, of 2] h show ?thesis by blast
qed

text \<open>
  For the step size \<open>-1\<close> and the gradient \<open>[1]\<close> the update is \<open>[-1]\<close>, of norm 1, not
  \<open>-1\<close>.
\<close>

theorem delta_row_norm_counterexample:
  "grad_norm [1] \<noteq> 0 \<and> delta_row (- 1) [1] = Inr [- 1] \<and> grad_norm [- 1] \<noteq> - 1"
  by (simp add: delta_row_def grad_norm_def guarded_div_def)

text \<open>
  C8. The comparison set is the embedding of the original batch, computed before the loop.
  After any number \<open>k\<close> of iterations it is unchanged, and the iteration that follows
  evaluates \<^verbatim>\<open>get_prob\<close> with that embedding as \<open>x_orig\<close>, both in the loss it computes and in
  the loss it differentiates, and leaves it in place.
\<close>

theorem comparison_set_frame:
  assumes "adv_init model noise x step_size rand = Inr s0"
    and "adv_loop model autograd y step_size k s0 = Inr s"
  shows "outputs_orig s = forward model x \<and>
         adv_loop model autograd y step_size (Suc k) s0 =
           bind_err
             (bind_err
                (get_prob (log_it model) (forward model (x_adv s)) y (Some (forward model x)))
                neg_log_sum) (\<lambda>loss.
           bind_err
             (autograd
                (\<lambda>x'. bind_err
                   (get_prob (log_it model) (forward model x') y (Some (forward model x)))
                   neg_log_sum)
                (x_adv s)) (\<lambda>grad.
           bind_err (delta step_size grad) (\<lambda>d.
           Inr \<lparr>x_adv = clamp 0 1 (add_batch (x_adv s) d), outputs_orig = forward model x\<rparr>)))"
proof -
  have "outputs_orig s0 = forward model x"
    using assms(1) by (auto simp: adv_init_def split: if_splits)
  then have o: "outputs_orig s = forward model x"
    using adv_loop_outputs_orig [OF assms(2)] by simp
  have f: "adv_loss model y (forward model x) =
           (\<lambda>x'. bind_err
              (get_prob (log_it model) (forward model x') y (Some (forward model x)))
              neg_log_sum)"
    by (rule ext) (simp add: adv_loss_def)
  have r: "s\<lparr>x_adv := v\<rparr> = \<lparr>x_adv = v, outputs_orig = forward model x\<rparr>" for v
    using o by (cases s) simp
  have "adv_loop model autograd y step_size (Suc k) s0 = adv_step model autograd y step_size s"
    unfolding adv_loop_Suc_end using assms(2) by simp
  then show ?thesis
    unfolding adv_step_def o f r using o by simp
qed

text \<open>
  One iteration of step size \<open>1/4\<close> from \<open>mixed_batch\<close>, with the gradient of the loss at
  that batch.
\<close>

theorem comparison_set_frame_witness:
  "adv_init sum_pixels_model [] mixed_batch (1 / 4) False =
     Inr \<lparr>x_adv = mixed_batch, outputs_orig = mixed_batch\<rparr> \<and>
   adv_loop sum_pixels_model mixed_grad mixed_labels (1 / 4) 1
     \<lparr>x_adv = mixed_batch, outputs_orig = mixed_batch\<rparr> =
     Inr \<lparr>x_adv = [[1 / 4], [1 / 4], [3 / 4], [3 / 4]], outputs_orig = mixed_batch\<rparr> \<and>
   outputs_orig \<lparr>x_adv = [[1 / 4], [1 / 4], [3 / 4], [3 / 4]], outputs_orig = mixed_batch\<rparr> =
     forward sum_pixels_model mixed_batch"
proof -
  have h1: "adv_init sum_pixels_model [] mixed_batch (1 / 4) False =
            Inr \<lparr>x_adv = mixed_batch, outputs_orig = mixed_batch\<rparr>"
    by (simp add: adv_init_def sum_pixels_model_def mixed_batch_def)
  have h2: "adv_loop sum_pixels_model mixed_grad mixed_labels (1 / 4) 1
              \<lparr>x_adv = mixed_batch, outputs_orig = mixed_batch\<rparr> =
            Inr \<lparr>x_adv = [[1 / 4], [1 / 4], [3 / 4], [3 / 4]], outputs_orig = mixed_batch\<rparr>"
    by (simp add: mixed_step)
  from comparison_set_frame [OF h1 h2] h1 h2 show ?thesis by simp
qed

end
